theory Spec2Isabelle
  imports Complex_Main "HOL-Library.Multiset" "HOL-Library.AList"
begin

section \<open>Timeline events (types.ts)\<close>

text \<open>
  \<^verbatim>\<open>TimelineEvent\<close> of \<^verbatim>\<open>types.ts\<close>. The numbers \<^verbatim>\<open>start\<close> and \<^verbatim>\<open>end\<close> are whole seconds:
  the scrubber creates them from cell indices and the drag handler rounds before it
  stores, so they are integers here. The optional \<^verbatim>\<open>subjectId\<close> is an option.
  The fields \<^verbatim>\<open>id\<close>, \<^verbatim>\<open>end\<close> and \<^verbatim>\<open>value\<close> carry a suffix, their plain names being taken.
\<close>

record timeline_event =
  id_e :: string
  paramName :: string
  paramPath :: string
  paramLabel :: string
  subjectId :: "string option"
  start :: int
  end_e :: int
  value_e :: string

section \<open>Lane layout (InteractiveTimeline, calculateLayout)\<close>

text \<open>
  An entry of \<^verbatim>\<open>layout\<close> has the type \<^verbatim>\<open>TimelineEvent & { lane: number }\<close>: the event's
  fields and a lane, which is an index into the array \<^verbatim>\<open>lanes\<close>.
\<close>

record placed_event = timeline_event +
  lane :: nat

record layout_result =
  layout :: "placed_event list"
  totalLanes :: nat

text \<open>The object spread \<^verbatim>\<open>{ ...event, lane: i }\<close>, and the event a placed entry carries.\<close>

definition withLane :: "timeline_event \<Rightarrow> nat \<Rightarrow> placed_event" where
  "withLane event i = timeline_event.extend event (placed_event.fields i)"

definition eventOf :: "placed_event \<Rightarrow> timeline_event" where
  "eventOf p = timeline_event.truncate p"

text \<open>
  The inner loop \<^verbatim>\<open>for (let i = 0; i < lanes.length; i++) if (lanes[i] <= event.start) ...
  break\<close>: the index of the first lane that is free at \<^verbatim>\<open>event.start\<close>, searched from \<open>i\<close>
  on, or \<open>None\<close> when the loop ends with \<^verbatim>\<open>placed\<close> still false.
\<close>

function scanLanes :: "int list \<Rightarrow> int \<Rightarrow> nat \<Rightarrow> nat option" where
  "scanLanes lanes s i =
     (if i < length lanes
      then (if lanes ! i \<le> s then Some i else scanLanes lanes s (Suc i))
      else None)"
  by pat_completeness auto
termination
  by (relation "measure (\<lambda>(lanes, s, i). length lanes - i)") auto

declare scanLanes.simps [simp del]

text \<open>
  One round of the outer loop \<^verbatim>\<open>for (const event of sortedEvents)\<close>, on the pair of the
  arrays \<^verbatim>\<open>layout\<close> (here \<open>placed\<close>) and \<^verbatim>\<open>lanes\<close>: a free lane takes the event and its
  end time; with no free lane, \<^verbatim>\<open>lanes.push(event.end)\<close> opens one and the event gets
  \<^verbatim>\<open>lanes.length - 1\<close>, read after the push.
\<close>

definition placeEvent ::
    "placed_event list \<times> int list \<Rightarrow> timeline_event \<Rightarrow> placed_event list \<times> int list" where
  "placeEvent acc event =
     (case acc of (placed, lanes) \<Rightarrow>
        (case scanLanes lanes (start event) 0 of
           Some i \<Rightarrow> (placed @ [withLane event i], lanes[i := end_e event])
         | None \<Rightarrow>
             (let lanes' = lanes @ [end_e event]
              in (placed @ [withLane event (length lanes' - 1)], lanes'))))"

definition layoutLoop :: "timeline_event list \<Rightarrow> placed_event list \<times> int list" where
  "layoutLoop sortedEvents = foldl placeEvent ([], []) sortedEvents"

text \<open>
  \<^verbatim>\<open>[...allEvents].sort((a, b) => a.start - b.start)\<close> sorts a copy by \<^verbatim>\<open>start\<close>;
  \<^verbatim>\<open>Array.prototype.sort\<close> is stable, as \<open>sort_key\<close> is.
\<close>

definition calculateLayout :: "timeline_event list \<Rightarrow> layout_result" where
  "calculateLayout allEvents =
     (let sortedEvents = sort_key start allEvents;
          (placed, lanes) = layoutLoop sortedEvents
      in \<lparr>layout = placed, totalLanes = length lanes\<rparr>)"

text \<open>Two events overlap when their ranges \<open>[start, end)\<close> share an instant.\<close>

definition overlaps :: "('a timeline_event_scheme) \<Rightarrow> ('b timeline_event_scheme) \<Rightarrow> bool" where
  "overlaps a b \<longleftrightarrow> start a < end_e b \<and> start b < end_e a"

text \<open>
  The number of events of a list whose range \<open>[start, end)\<close> holds the instant \<open>t\<close>:
  the events on screen together at \<open>t\<close>.
\<close>

definition activeAt :: "int \<Rightarrow> 'a timeline_event_scheme \<Rightarrow> bool" where
  "activeAt t e \<longleftrightarrow> start e \<le> t \<and> t < end_e e"

definition overlapCount :: "timeline_event list \<Rightarrow> int \<Rightarrow> nat" where
  "overlapCount evs t = length (filter (activeAt t) evs)"

text \<open>
  \<^verbatim>\<open>calculateLayout\<close> with the arrays of events in a heap, a list of arrays addressed by
  position, to follow what the function writes: \<^verbatim>\<open>[...allEvents]\<close> allocates a new array
  with the elements of the one at \<open>allEvents\<close>, and \<^verbatim>\<open>.sort\<close> sorts that new array in
  place. The events themselves are only read: \<^verbatim>\<open>{ ...event, lane: i }\<close> is a new object.
\<close>

definition calculateLayoutIn ::
    "timeline_event list list \<Rightarrow> nat \<Rightarrow> (layout_result \<times> timeline_event list list) option" where
  "calculateLayoutIn heap allEvents =
     (if allEvents < length heap
      then
        (let sortedEvents = length heap;
             heap1 = heap @ [heap ! allEvents];
             heap2 = heap1[sortedEvents := sort_key start (heap1 ! sortedEvents)];
             (placed, lanes) = layoutLoop (heap2 ! sortedEvents)
         in Some (\<lparr>layout = placed, totalLanes = length lanes\<rparr>, heap2))
      else None)"

text \<open>An event for the examples: only its identifier and its range vary.\<close>

definition event_at :: "string \<Rightarrow> int \<Rightarrow> int \<Rightarrow> timeline_event" where
  "event_at i s e =
     \<lparr>id_e = i, paramName = ''Action'', paramPath = ''scene.action'', paramLabel = ''action'',
      subjectId = None, start = s, end_e = e, value_e = ''run''\<rparr>"

definition exampleEvents :: "timeline_event list" where
  "exampleEvents = [event_at ''b'' 2 6, event_at ''a'' 0 4, event_at ''c'' 4 7]"

section \<open>Dragging an event (InteractiveTimeline, handleMouseDown and handleMouseMove)\<close>

text \<open>
  A JavaScript number that comes out of a division: a value, one of the two infinities,
  or \<^verbatim>\<open>NaN\<close>. The values are reals before \<^verbatim>\<open>Math.round\<close> and integers after it.
\<close>

datatype 'a jsnum = NaN | NegInfinity | Finite 'a | PosInfinity

text \<open>
  The state \<^verbatim>\<open>draggingEvent\<close> of the component, \<^verbatim>\<open>{ id, startOffset }\<close> while a drag is
  on, and the two fields of a \<^verbatim>\<open>getBoundingClientRect()\<close> that the handlers read. The
  pointer's coordinate and the fields of a rectangle are real numbers; the offset is
  the result of a division.
\<close>

record drag_state =
  drag_id :: string
  startOffset :: "real jsnum"

record dom_rect =
  rect_left :: real
  rect_width :: real

text \<open>
  The quotient \<^verbatim>\<open>x / w\<close> of two numbers: by 0 it is an infinity with the sign of \<open>x\<close>, and
  \<^verbatim>\<open>0 / 0\<close> is \<^verbatim>\<open>NaN\<close>. The product of such a quotient with an integer: an infinity times
  0 is \<^verbatim>\<open>NaN\<close>.
\<close>

definition jsDivide :: "real \<Rightarrow> real \<Rightarrow> real jsnum" where
  "jsDivide x w =
     (if w = 0 then (if x = 0 then NaN else if 0 < x then PosInfinity else NegInfinity)
      else Finite (x / w))"



text \<open>\<^verbatim>\<open>Math.round\<close> of a real: the nearest integer, a half rounded up.\<close>

definition jsRound :: "real \<Rightarrow> int" where
  "jsRound x = \<lfloor>x + 1 / 2\<rfloor>"

text \<open>
  \<^verbatim>\<open>mouseX = e.clientX - timelineRect.left\<close> and
  \<^verbatim>\<open>percent = Math.max(0, Math.min(1, mouseX / timelineRect.width))\<close>. The two bounds
  bring an infinite quotient to 1 or 0 and pass \<^verbatim>\<open>NaN\<close> on, so \<^verbatim>\<open>percent\<close> is a real
  between 0 and 1 or \<^verbatim>\<open>NaN\<close>, which is \<open>None\<close> here.
\<close>

definition pointerPercent :: "dom_rect \<Rightarrow> real \<Rightarrow> real option" where
  "pointerPercent timelineRect clientX =
     (let mouseX = clientX - rect_left timelineRect
      in case jsDivide mouseX (rect_width timelineRect) of
           NaN \<Rightarrow> None
         | PosInfinity \<Rightarrow> Some 1
         | NegInfinity \<Rightarrow> Some 0
         | Finite q \<Rightarrow> Some (max 0 (min 1 q)))"

text \<open>
  \<^verbatim>\<open>newStart = Math.round((percent * duration) - draggingEvent.startOffset)\<close>: \<^verbatim>\<open>NaN\<close>
  when the fraction or the offset is, an infinity of the other sign when the offset is
  infinite, and the rounded difference else.
\<close>

definition newStartOf :: "real option \<Rightarrow> int \<Rightarrow> real jsnum \<Rightarrow> int jsnum" where
  "newStartOf percent duration offset =
     (case percent of
        None \<Rightarrow> NaN
      | Some p \<Rightarrow>
          (case offset of
             NaN \<Rightarrow> NaN
           | PosInfinity \<Rightarrow> NegInfinity
           | NegInfinity \<Rightarrow> PosInfinity
           | Finite off \<Rightarrow> Finite (jsRound (p * real_of_int duration - off))))"

text \<open>
  \<^verbatim>\<open>clampedStart = Math.max(0, Math.min(newStart, duration - eventDuration))\<close>, first
  on an integer candidate, then on any: \<^verbatim>\<open>Math.min\<close> and \<^verbatim>\<open>Math.max\<close> give \<^verbatim>\<open>NaN\<close> for
  \<^verbatim>\<open>NaN\<close> (\<open>None\<close> here) and take an infinity as the least or the greatest number.
\<close>

definition clampedStart :: "int \<Rightarrow> int \<Rightarrow> int \<Rightarrow> int" where
  "clampedStart newStart duration eventDuration = max 0 (min newStart (duration - eventDuration))"

definition clampOf :: "int jsnum \<Rightarrow> int \<Rightarrow> int \<Rightarrow> int option" where
  "clampOf newStart duration eventDuration =
     (case newStart of
        NaN \<Rightarrow> None
      | NegInfinity \<Rightarrow> Some 0
      | PosInfinity \<Rightarrow> Some (max 0 (duration - eventDuration))
      | Finite n \<Rightarrow> Some (clampedStart n duration eventDuration))"

text \<open>
  What one \<^verbatim>\<open>mousemove\<close> does: nothing (\<open>NoUpdate\<close>: no drag, no timeline element, no
  event with the dragged id, or a start that stays where it is), or a call of
  \<^verbatim>\<open>onEventUpdate\<close>. \<open>Update e\<close> is the call with the event \<open>e\<close>, the current event at its
  new start and end. \<open>UpdateNaN e\<close> is the call with \<^verbatim>\<open>{ ...e, start: NaN, end: NaN }\<close>,
  \<open>e\<close> being the current event: a clamped start of \<^verbatim>\<open>NaN\<close> differs from every start
  (\<^verbatim>\<open>NaN !== x\<close>), so the update is emitted, and its end, \<^verbatim>\<open>NaN + eventDuration\<close>, is
  \<^verbatim>\<open>NaN\<close> too.
\<close>

datatype move_result = NoUpdate | Update timeline_event | UpdateNaN timeline_event

definition handleMouseMove ::
    "drag_state option \<Rightarrow> dom_rect option \<Rightarrow> real \<Rightarrow> timeline_event list \<Rightarrow> int \<Rightarrow> move_result" where
  "handleMouseMove draggingEvent timelineRef clientX events duration =
     (case draggingEvent of
        None \<Rightarrow> NoUpdate
      | Some dragging \<Rightarrow>
          (case timelineRef of
             None \<Rightarrow> NoUpdate
           | Some timelineRect \<Rightarrow>
               (let percent = pointerPercent timelineRect clientX
                in case find (\<lambda>ev. id_e ev = drag_id dragging) events of
                     None \<Rightarrow> NoUpdate
                   | Some currentEvent \<Rightarrow>
                       (let eventDuration = end_e currentEvent - start currentEvent;
                            newStart = newStartOf percent duration (startOffset dragging)
                        in case clampOf newStart duration eventDuration of
                             None \<Rightarrow> UpdateNaN currentEvent
                           | Some clamped \<Rightarrow>
                               (let newEnd = clamped + eventDuration
                                in if clamped \<noteq> start currentEvent
                                   then Update (currentEvent\<lparr>start := clamped, end_e := newEnd\<rparr>)
                                   else NoUpdate)))))"

section \<open>The studio's state (SceneGenerationStudio)\<close>

text \<open>
  \<^verbatim>\<open>PromptType\<close> of \<^verbatim>\<open>types.ts\<close>, and the values the parameter tree and the subjects
  hold (\<^verbatim>\<open>any\<close> in the source): a string, an array of strings, or an object. An object
  is the list of its entries in insertion order, the order \<^verbatim>\<open>Object.entries\<close> gives for
  keys that are not array indices; \<open>AList.update\<close> writes a key as an assignment does (in
  place when the key is there, at the end when it is not), and \<open>AList.delete\<close> is
  \<^verbatim>\<open>delete\<close>.
\<close>

datatype prompt_type = Image | Video | VideoWithSound

datatype jv = JStr string | JArr "string list" | JObj "(string \<times> jv) list"

type_synonym obj = "(string \<times> jv) list"

text \<open>
  A \<^verbatim>\<open>Subject\<close> is an object with the keys \<^verbatim>\<open>id\<close> and \<^verbatim>\<open>name\<close> and any further keys.
  The state is the six \<^verbatim>\<open>useState\<close> cells of the component.
\<close>

type_synonym subject = obj

record studio =
  promptType :: prompt_type
  subjects :: "subject list"
  params :: obj
  timeline :: "timeline_event list"
  activeTab :: string
  animatedParams :: "(string \<times> bool) list"

text \<open>A number in a template literal: its decimal digits.\<close>

definition digitChar :: "nat \<Rightarrow> char" where
  "digitChar n = ''0123456789'' ! n"

function showNat :: "nat \<Rightarrow> string" where
  "showNat n = (if n < 10 then [digitChar n] else showNat (n div 10) @ [digitChar (n mod 10)])"
  by pat_completeness auto
termination
  by (relation "measure id") auto

declare showNat.simps [simp del]


text \<open>
  \<^verbatim>\<open>resetState\<close>; \<open>now\<close> is the value of \<^verbatim>\<open>Date.now()\<close>. The state after mounting is the
  initial values of the cells followed by the mount effects, which run \<^verbatim>\<open>resetState\<close>.
\<close>

definition newSubject :: "nat \<Rightarrow> string \<Rightarrow> subject" where
  "newSubject now nm = [(''id'', JStr (''subj_'' @ showNat now)), (''name'', JStr nm)]"

definition resetState :: "nat \<Rightarrow> studio \<Rightarrow> studio" where
  "resetState now st =
     st\<lparr>subjects := [newSubject now ''subject_1''], params := [], timeline := [],
        animatedParams := []\<rparr>"

definition initialStudio :: "nat \<Rightarrow> studio" where
  "initialStudio now =
     resetState now
       \<lparr>promptType = Image, subjects = [], params = [], timeline = [], activeTab = ''Director'',
        animatedParams = []\<rparr>"

text \<open>
  \<^verbatim>\<open>setPromptType(type)\<close> from the three buttons, with the effect that depends on
  \<^verbatim>\<open>promptType\<close>: \<^verbatim>\<open>useEffect(() => { if (promptType === 'Image') setTimeline([]); },
  [promptType])\<close>. Setting the type it already has changes nothing and runs no effect.
\<close>

definition promptTypeEffect :: "studio \<Rightarrow> studio" where
  "promptTypeEffect st = (if promptType st = Image then st\<lparr>timeline := []\<rparr> else st)"

definition setPromptType :: "prompt_type \<Rightarrow> studio \<Rightarrow> studio" where
  "setPromptType t st = (if t = promptType st then st else promptTypeEffect (st\<lparr>promptType := t\<rparr>))"

text \<open>
  \<^verbatim>\<open>updateSubject\<close>, the "+ Add Subject" button, and \<^verbatim>\<open>removeSubject\<close>. \<open>subjectHasId\<close> is
  the test \<^verbatim>\<open>subj.id === id\<close>; the timeline's filter compares \<^verbatim>\<open>event.subjectId\<close>, which
  may be \<^verbatim>\<open>undefined\<close>, with the \<^verbatim>\<open>id\<close> of the subject found.
\<close>

definition subjectHasId :: "string \<Rightarrow> subject \<Rightarrow> bool" where
  "subjectHasId i subj \<longleftrightarrow> map_of subj ''id'' = Some (JStr i)"

definition updateSubject :: "string \<Rightarrow> string \<Rightarrow> jv \<Rightarrow> studio \<Rightarrow> studio" where
  "updateSubject i key v st =
     st\<lparr>subjects :=
          map (\<lambda>subj. if subjectHasId i subj then AList.update key v subj else subj) (subjects st)\<rparr>"

definition addSubject :: "nat \<Rightarrow> studio \<Rightarrow> studio" where
  "addSubject now st =
     st\<lparr>subjects :=
          subjects st @ [newSubject now (''subject_'' @ showNat (length (subjects st) + 1))]\<rparr>"

definition removeSubject :: "string \<Rightarrow> studio \<Rightarrow> studio" where
  "removeSubject i st =
     (case find (subjectHasId i) (subjects st) of
        None \<Rightarrow> st
      | Some subjectToRemove \<Rightarrow>
          st\<lparr>subjects := filter (\<lambda>subj. \<not> subjectHasId i subj) (subjects st),
             timeline :=
               filter (\<lambda>event. map_option JStr (subjectId event) \<noteq> map_of subjectToRemove ''id'')
                 (timeline st)\<rparr>)"

subsection \<open>The parameter tree (handleParamChange)\<close>

text \<open>\<^verbatim>\<open>path.split('.')\<close>: the pieces between the dots, at least one.\<close>

fun splitDot :: "string \<Rightarrow> string list" where
  "splitDot [] = [[]]"
| "splitDot (c # cs) =
     (if c = CHR ''.'' then [] # splitDot cs
      else (case splitDot cs of [] \<Rightarrow> [[c]] | w # ws \<Rightarrow> (c # w) # ws))"

text \<open>
  The test \<^verbatim>\<open>!value || (Array.isArray(value) && value.length === 0) || value === ''\<close>:
  the empty string and the empty array.
\<close>

definition isEmptyValue :: "jv \<Rightarrow> bool" where
  "isEmptyValue v \<longleftrightarrow> v = JStr [] \<or> v = JArr []"

text \<open>
  The walk along the keys, on the object \<^verbatim>\<open>current\<close>. With keys left after \<open>k\<close>,
  \<^verbatim>\<open>current[k] = current[k] || {}\<close> keeps an object, and puts an empty object where the
  key is missing or holds the empty string (which is falsy); the walk goes on inside it.
  At the last key the leaf is deleted or written. A non-empty string or an array met
  before the last key is \<open>LeafOnPath\<close>, and the walk is not followed further: JavaScript
  goes on with that value as \<^verbatim>\<open>current\<close>, and what happens depends on the value and the
  key (writing to a string is a TypeError in a module, writing to an array gives it a
  property that is no value of \<open>jv\<close>, deleting a key the value does not have does
  nothing). The studio's own paths have two keys, category and sub-category, and meet
  objects only.
\<close>

datatype path_error = LeafOnPath

fun setIn :: "string \<Rightarrow> string list \<Rightarrow> jv \<Rightarrow> obj \<Rightarrow> path_error + obj" where
  "setIn k [] v current =
     Inr (if isEmptyValue v then AList.delete k current else AList.update k v current)"
| "setIn k (k' # ks) v current =
     (case map_of current k of
        None \<Rightarrow> map_sum id (\<lambda>c. AList.update k (JObj c) current) (setIn k' ks v [])
      | Some (JObj child) \<Rightarrow> map_sum id (\<lambda>c. AList.update k (JObj c) current) (setIn k' ks v child)
      | Some (JStr s) \<Rightarrow>
          (if s = [] then map_sum id (\<lambda>c. AList.update k (JObj c) current) (setIn k' ks v [])
           else Inl LeafOnPath)
      | Some (JArr a) \<Rightarrow> Inl LeafOnPath)"

text \<open>
  \<^verbatim>\<open>handleParamChange\<close>: the new value of \<^verbatim>\<open>params\<close>. The deep copy
  \<^verbatim>\<open>JSON.parse(JSON.stringify(p))\<close> is the identity on values.
\<close>

definition handleParamChange :: "string \<Rightarrow> jv \<Rightarrow> obj \<Rightarrow> path_error + obj" where
  "handleParamChange path v p =
     (case splitDot path of
        [] \<Rightarrow> Inr p
      | k # ks \<Rightarrow> setIn k ks v p)"

text \<open>Reading a path: \<^verbatim>\<open>tree[k1][k2]...\<close>, \<open>None\<close> for \<^verbatim>\<open>undefined\<close>.\<close>

fun lookupPath :: "string list \<Rightarrow> jv \<Rightarrow> jv option" where
  "lookupPath [] v = Some v"
| "lookupPath (k # ks) (JObj c) = (case map_of c k of None \<Rightarrow> None | Some v \<Rightarrow> lookupPath ks v)"
| "lookupPath (k # ks) (JStr s) = None"
| "lookupPath (k # ks) (JArr a) = None"

subsection \<open>The timeline's handlers\<close>

text \<open>
  \<^verbatim>\<open>addTimelineEvent\<close>; \<open>eventId\<close> is the value of the template
  \<^verbatim>\<open>evt_${Date.now()}_${Math.random()}\<close>, and \<open>subjectContext\<close> the pair of the subject's id
  and name. \<^verbatim>\<open>removeTimelineEvent\<close> and \<^verbatim>\<open>updateTimelineEvent\<close> follow.
\<close>

definition addTimelineEvent ::
    "string \<Rightarrow> string \<Rightarrow> int \<Rightarrow> int \<Rightarrow> string \<Rightarrow> (string \<times> string) option \<Rightarrow> string \<Rightarrow> studio \<Rightarrow> studio" where
  "addTimelineEvent path label s e v subjectContext eventId st =
     (if v = [] then st
      else
        st\<lparr>timeline :=
             timeline st @
               [\<lparr>id_e = eventId,
                 paramName =
                   (case subjectContext of
                      Some (sid, sname) \<Rightarrow> sname @ ''.'' @ label
                    | None \<Rightarrow> label),
                 paramPath = path, paramLabel = label, subjectId = map_option fst subjectContext,
                 start = s, end_e = e, value_e = v\<rparr>]\<rparr>)"

definition removeTimelineEvent :: "string \<Rightarrow> studio \<Rightarrow> studio" where
  "removeTimelineEvent i st = st\<lparr>timeline := filter (\<lambda>event. id_e event \<noteq> i) (timeline st)\<rparr>"

definition updateTimelineEvent :: "timeline_event \<Rightarrow> studio \<Rightarrow> studio" where
  "updateTimelineEvent updatedEvent st =
     st\<lparr>timeline := map (\<lambda>e. if id_e e = id_e updatedEvent then updatedEvent else e) (timeline st)\<rparr>"

text \<open>
  The animate button of a field: \<^verbatim>\<open>setAnimatedParams(p => ({...p, [paramKey]:
  !p[paramKey]}))\<close>. The button and the scrubber are rendered for a field only when
  \<^verbatim>\<open>isAnimatable\<close>, and the scrubber only when the field's key is on.
\<close>

definition isAnimatable :: "prompt_type \<Rightarrow> string \<Rightarrow> bool" where
  "isAnimatable t category \<longleftrightarrow>
     t \<noteq> Image \<and> category \<notin> set [''directorNotes'', ''technical'', ''rules'']"

definition toggleAnimated :: "string \<Rightarrow> studio \<Rightarrow> studio" where
  "toggleAnimated paramKey st =
     st\<lparr>animatedParams :=
          AList.update paramKey
            (case map_of (animatedParams st) paramKey of None \<Rightarrow> True | Some b \<Rightarrow> \<not> b)
            (animatedParams st)\<rparr>"

text \<open>\<^verbatim>\<open>handleAddClick\<close> of the scrubber: the range of the cells selected, end exclusive.\<close>

definition scrubberRange :: "int \<Rightarrow> int \<Rightarrow> int \<times> int" where
  "scrubberRange s e = (min s e, max s e + 1)"

subsection \<open>What the user can do\<close>

text \<open>
  One action is one event handler run to its end, effects included. \<open>perform\<close> is \<open>None\<close>
  where the component does not offer the action: the remove button of a subject needs
  two subjects; the animate button and the scrubber need an animatable field, the
  scrubber also the field's key switched on; \<^verbatim>\<open>InteractiveTimeline\<close>, which calls
  \<^verbatim>\<open>onEventUpdate\<close> and \<^verbatim>\<open>onEventRemove\<close>, is mounted only when the prompt type is not
  \<^verbatim>\<open>Image\<close>; a parameter change whose walk meets a leaf is not followed. The state between
  \<^verbatim>\<open>setPromptType\<close> and its effect, which React renders once, is no state here: no handler
  runs in it. The arguments a field
  computes for \<^verbatim>\<open>addTimelineEvent\<close> (path, label, first value, subject) and the event a drag
  passes to \<^verbatim>\<open>onEventUpdate\<close> are left free: the actions allow at least every call the
  component makes with an event of whole seconds. The update of a drag whose numbers are
  \<^verbatim>\<open>NaN\<close> (\<open>UpdateNaN\<close>) is the same handler with an event that \<open>timeline_event\<close> does not
  hold; it too replaces events one for one.
\<close>

datatype action =
    SetPromptType prompt_type
  | ResetAll nat
  | SetActiveTab string
  | UpdateSubject string string jv
  | AddSubject nat
  | RemoveSubject string
  | ParamChange string jv
  | ToggleAnimated string string
  | AddToTimeline string string string string int int string "(string \<times> string) option" string
  | UpdateEvent timeline_event
  | RemoveEvent string

fun perform :: "action \<Rightarrow> studio \<Rightarrow> studio option" where
  "perform (SetPromptType t) st = Some (setPromptType t st)"
| "perform (ResetAll now) st = Some (resetState now st)"
| "perform (SetActiveTab tab) st = Some (st\<lparr>activeTab := tab\<rparr>)"
| "perform (UpdateSubject i key v) st = Some (updateSubject i key v st)"
| "perform (AddSubject now) st = Some (addSubject now st)"
| "perform (RemoveSubject i) st =
     (if 1 < length (subjects st) then Some (removeSubject i st) else None)"
| "perform (ParamChange path v) st =
     (case handleParamChange path v (params st) of
        Inl err \<Rightarrow> None
      | Inr p \<Rightarrow> Some (st\<lparr>params := p\<rparr>))"
| "perform (ToggleAnimated category paramKey) st =
     (if isAnimatable (promptType st) category then Some (toggleAnimated paramKey st) else None)"
| "perform (AddToTimeline category paramKey path label s e v subjectContext eventId) st =
     (if isAnimatable (promptType st) category \<and> map_of (animatedParams st) paramKey = Some True
      then (case scrubberRange s e of
              (finalStart, finalEnd) \<Rightarrow>
                Some (addTimelineEvent path label finalStart finalEnd v subjectContext eventId st))
      else None)"
| "perform (UpdateEvent updatedEvent) st =
     (if promptType st \<noteq> Image then Some (updateTimelineEvent updatedEvent st) else None)"
| "perform (RemoveEvent i) st =
     (if promptType st \<noteq> Image then Some (removeTimelineEvent i st) else None)"

text \<open>The states the studio can be in: the state after mounting, and what actions lead to.\<close>

inductive reachable :: "studio \<Rightarrow> bool" where
  mounted: "reachable (initialStudio now)"
| action: "reachable st \<Longrightarrow> perform a st = Some st' \<Longrightarrow> reachable st'"

text \<open>A list of actions, one after the other; \<open>None\<close> when one of them is not offered.\<close>

fun performAll :: "action list \<Rightarrow> studio \<Rightarrow> studio option" where
  "performAll [] st = Some st"
| "performAll (a # as) st = (case perform a st of None \<Rightarrow> None | Some st' \<Rightarrow> performAll as st')"

text \<open>A state for the examples: two subjects, an event of each, and one event of no subject.\<close>

definition exampleStudio :: studio where
  "exampleStudio =
     \<lparr>promptType = Video,
      subjects =
        [[(''id'', JStr ''subj_1''), (''name'', JStr ''subject_1'')],
         [(''id'', JStr ''subj_2''), (''name'', JStr ''subject_2''), (''pose'', JArr [''sitting''])]],
      params = [(''camera'', JObj [(''angle'', JArr [''low''])])],
      timeline =
        [(event_at ''e1'' 0 3)\<lparr>subjectId := Some ''subj_1''\<rparr>,
         (event_at ''e2'' 1 4)\<lparr>subjectId := Some ''subj_2''\<rparr>,
         event_at ''e3'' 2 5],
      activeTab = ''Subjects'',
      animatedParams = []\<rparr>"

text \<open>
  Actions for the examples: to video, the animate button of the field \<^verbatim>\<open>scene.action\<close>, and
  the scrubber's cells 3 down to 1 added to the timeline.
\<close>

definition exampleActions :: "action list" where
  "exampleActions =
     [SetPromptType Video,
      ToggleAnimated ''scene'' ''scene.action'',
      AddToTimeline ''scene'' ''scene.action'' ''scene.action'' ''action'' 3 1 ''run'' None ''evt_1'']"

section \<open>The text prompt (the effect that calls updateOutputs)\<close>





























section \<open>Facts about the layout loop\<close>

lemma eventOf_withLane [simp]: "eventOf (withLane e i) = e"
  by (simp add: eventOf_def withLane_def timeline_event.defs placed_event.defs)

lemma lane_withLane [simp]: "lane (withLane e i) = i"
  by (simp add: withLane_def timeline_event.defs placed_event.defs)

lemma start_withLane [simp]: "start (withLane e i) = start e"
  by (simp add: withLane_def timeline_event.defs placed_event.defs)

lemma end_withLane [simp]: "end_e (withLane e i) = end_e e"
  by (simp add: withLane_def timeline_event.defs placed_event.defs)

lemma start_eventOf [simp]: "start (eventOf p) = start p"
  by (simp add: eventOf_def timeline_event.defs)

lemma end_eventOf [simp]: "end_e (eventOf p) = end_e p"
  by (simp add: eventOf_def timeline_event.defs)

lemma scanLanes_Some:
  "scanLanes lanes s i = Some k \<Longrightarrow> i \<le> k \<and> k < length lanes \<and> lanes ! k \<le> s"
proof (induction lanes s i rule: scanLanes.induct)
  case (1 lanes s i)
  show ?case
  proof (cases "i < length lanes \<and> \<not> lanes ! i \<le> s")
    case True
    with "1.prems" have "scanLanes lanes s (Suc i) = Some k"
      by (simp add: scanLanes.simps [of lanes s i])
    with True "1.IH" show ?thesis by auto
  next
    case False
    with "1.prems" show ?thesis
      by (auto simp: scanLanes.simps [of lanes s i] split: if_splits)
  qed
qed

lemma scanLanes_None:
  "scanLanes lanes s i = None \<Longrightarrow> i \<le> j \<Longrightarrow> j < length lanes \<Longrightarrow> s < lanes ! j"
proof (induction lanes s i rule: scanLanes.induct)
  case (1 lanes s i)
  from "1.prems" have i: "i < length lanes" by simp
  from "1.prems"(1) i have here: "\<not> lanes ! i \<le> s" and rest: "scanLanes lanes s (Suc i) = None"
    by (auto simp: scanLanes.simps [of lanes s i] split: if_splits)
  show ?case
  proof (cases "j = i")
    case True
    with here show ?thesis by simp
  next
    case False
    with "1.prems" have "Suc i \<le> j" by simp
    with "1.IH" [OF i here rest] "1.prems" show ?thesis by simp
  qed
qed

lemma layoutLoop_Nil [simp]: "layoutLoop [] = ([], [])"
  by (simp add: layoutLoop_def)

lemma layoutLoop_snoc: "layoutLoop (xs @ [e]) = placeEvent (layoutLoop xs) e"
  by (simp add: layoutLoop_def)

lemma placeEvent_cases:
  obtains (reuse) i where "i < length lanes" "lanes ! i \<le> start e"
      "placeEvent (L, lanes) e = (L @ [withLane e i], lanes[i := end_e e])"
  | (fresh) "\<forall>j<length lanes. start e < lanes ! j"
      "placeEvent (L, lanes) e = (L @ [withLane e (length lanes)], lanes @ [end_e e])"
proof (cases "scanLanes lanes (start e) 0")
  case None
  then have "\<forall>j<length lanes. start e < lanes ! j"
    using scanLanes_None by blast
  moreover from None have "placeEvent (L, lanes) e = (L @ [withLane e (length lanes)], lanes @ [end_e e])"
    by (simp add: placeEvent_def)
  ultimately show ?thesis by (rule fresh)
next
  case (Some i)
  then have "i < length lanes" "lanes ! i \<le> start e"
    using scanLanes_Some by blast+
  moreover from Some have "placeEvent (L, lanes) e = (L @ [withLane e i], lanes[i := end_e e])"
    by (simp add: placeEvent_def)
  ultimately show ?thesis by (rule reuse)
qed

lemma loop_events: "layoutLoop xs = (L, lanes) \<Longrightarrow> map eventOf L = xs"
proof (induction xs arbitrary: L lanes rule: rev_induct)
  case Nil
  then show ?case by simp
next
  case (snoc e xs)
  obtain L0 lanes0 where l0: "layoutLoop xs = (L0, lanes0)" by (cases "layoutLoop xs")
  with snoc.IH have "map eventOf L0 = xs" by simp
  moreover from snoc.prems l0 have "placeEvent (L0, lanes0) e = (L, lanes)"
    by (simp add: layoutLoop_snoc)
  ultimately show ?case
    by (cases rule: placeEvent_cases [of lanes0 e L0]) auto
qed

lemma loop_lane_bound:
  "layoutLoop xs = (L, lanes) \<Longrightarrow> p \<in> set L \<Longrightarrow> lane p < length lanes"
proof (induction xs arbitrary: L lanes p rule: rev_induct)
  case Nil
  then show ?case by simp
next
  case (snoc e xs)
  obtain L0 lanes0 where l0: "layoutLoop xs = (L0, lanes0)" by (cases "layoutLoop xs")
  with snoc.IH have ih: "\<And>q. q \<in> set L0 \<Longrightarrow> lane q < length lanes0" by simp
  from snoc.prems l0 have step: "placeEvent (L0, lanes0) e = (L, lanes)"
    by (simp add: layoutLoop_snoc)
  show ?case
    using step snoc.prems(2) ih
    by (cases rule: placeEvent_cases [of lanes0 e L0]) (auto simp: less_Suc_eq)
qed

lemma loop_lane_used:
  "layoutLoop xs = (L, lanes) \<Longrightarrow> k < length lanes \<Longrightarrow>
     \<exists>p\<in>set L. lane p = k \<and> end_e p = lanes ! k"
proof (induction xs arbitrary: L lanes k rule: rev_induct)
  case Nil
  then show ?case by simp
next
  case (snoc e xs)
  obtain L0 lanes0 where l0: "layoutLoop xs = (L0, lanes0)" by (cases "layoutLoop xs")
  with snoc.IH have ih:
    "\<And>j. j < length lanes0 \<Longrightarrow> \<exists>p\<in>set L0. lane p = j \<and> end_e p = lanes0 ! j" by simp
  from snoc.prems l0 have step: "placeEvent (L0, lanes0) e = (L, lanes)"
    by (simp add: layoutLoop_snoc)
  show ?case
  proof (cases rule: placeEvent_cases [of lanes0 e L0])
    case (reuse i)
    with step have L: "L = L0 @ [withLane e i]" and lanes: "lanes = lanes0[i := end_e e]"
      by simp_all
    show ?thesis
    proof (cases "k = i")
      case True
      with L lanes reuse(1) show ?thesis by auto
    next
      case False
      with snoc.prems(2) lanes ih [of k] L show ?thesis by auto
    qed
  next
    case fresh
    with step have L: "L = L0 @ [withLane e (length lanes0)]"
      and lanes: "lanes = lanes0 @ [end_e e]"
      by simp_all
    show ?thesis
    proof (cases "k = length lanes0")
      case True
      with L lanes show ?thesis by auto
    next
      case False
      with snoc.prems(2) lanes have "k < length lanes0" by simp
      with ih [of k] L lanes show ?thesis by (auto simp: nth_append)
    qed
  qed
qed

lemma loop_lane_end:
  "\<forall>e\<in>set xs. start e \<le> end_e e \<Longrightarrow> layoutLoop xs = (L, lanes) \<Longrightarrow> p \<in> set L \<Longrightarrow>
     end_e p \<le> lanes ! lane p"
proof (induction xs arbitrary: L lanes p rule: rev_induct)
  case Nil
  then show ?case by simp
next
  case (snoc e xs)
  obtain L0 lanes0 where l0: "layoutLoop xs = (L0, lanes0)" by (cases "layoutLoop xs")
  with snoc.IH snoc.prems(1) have ih: "\<And>q. q \<in> set L0 \<Longrightarrow> end_e q \<le> lanes0 ! lane q" by simp
  have bound: "\<And>q. q \<in> set L0 \<Longrightarrow> lane q < length lanes0"
    using l0 by (rule loop_lane_bound)
  from snoc.prems(1) have e: "start e \<le> end_e e" by simp
  from snoc.prems l0 have step: "placeEvent (L0, lanes0) e = (L, lanes)"
    by (simp add: layoutLoop_snoc)
  show ?case
  proof (cases rule: placeEvent_cases [of lanes0 e L0])
    case (reuse i)
    with step have L: "L = L0 @ [withLane e i]" and lanes: "lanes = lanes0[i := end_e e]"
      by simp_all
    show ?thesis
    proof (cases "p \<in> set L0")
      case True
      show ?thesis
      proof (cases "lane p = i")
        case True
        with ih [OF \<open>p \<in> set L0\<close>] reuse e lanes show ?thesis by simp
      next
        case False
        with ih [OF True] lanes show ?thesis by simp
      qed
    next
      case False
      with snoc.prems(3) L have "p = withLane e i" by simp
      with lanes reuse(1) show ?thesis by simp
    qed
  next
    case fresh
    with step have L: "L = L0 @ [withLane e (length lanes0)]"
      and lanes: "lanes = lanes0 @ [end_e e]"
      by simp_all
    show ?thesis
    proof (cases "p \<in> set L0")
      case True
      with ih [OF True] bound [OF True] lanes show ?thesis by (simp add: nth_append)
    next
      case False
      with snoc.prems(3) L have "p = withLane e (length lanes0)" by simp
      with lanes show ?thesis by simp
    qed
  qed
qed

lemma loop_disjoint:
  "\<forall>e\<in>set xs. start e \<le> end_e e \<Longrightarrow> layoutLoop xs = (L, lanes) \<Longrightarrow>
     i < j \<Longrightarrow> j < length L \<Longrightarrow> lane (L ! i) = lane (L ! j) \<Longrightarrow> end_e (L ! i) \<le> start (L ! j)"
proof (induction xs arbitrary: L lanes i j rule: rev_induct)
  case Nil
  then show ?case by simp
next
  case (snoc e xs)
  obtain L0 lanes0 where l0: "layoutLoop xs = (L0, lanes0)" by (cases "layoutLoop xs")
  from snoc.prems(1) have valid: "\<forall>e\<in>set xs. start e \<le> end_e e" by simp
  from snoc.prems(2) l0 have step: "placeEvent (L0, lanes0) e = (L, lanes)"
    by (simp add: layoutLoop_snoc)
  have len: "length L = Suc (length L0)"
    using step by (cases rule: placeEvent_cases [of lanes0 e L0]) auto
  show ?case
  proof (cases "j < length L0")
    case True
    have "L ! i = L0 ! i" "L ! j = L0 ! j"
      using step True snoc.prems(3)
      by (cases rule: placeEvent_cases [of lanes0 e L0]; auto simp: nth_append)+
    with snoc.IH [OF valid l0 snoc.prems(3) True] snoc.prems(5) show ?thesis by simp
  next
    case False
    with snoc.prems(4) len have j: "j = length L0" by simp
    with snoc.prems(3) have i: "i < length L0" by simp
    then have mem: "L0 ! i \<in> set L0" by simp
    have ends: "end_e (L0 ! i) \<le> lanes0 ! lane (L0 ! i)"
      using valid l0 mem by (rule loop_lane_end)
    have bound: "lane (L0 ! i) < length lanes0"
      using l0 mem by (rule loop_lane_bound)
    show ?thesis
    proof (cases rule: placeEvent_cases [of lanes0 e L0])
      case (reuse k)
      with step have L: "L = L0 @ [withLane e k]" by simp
      with i j snoc.prems(5) have "lane (L0 ! i) = k" by (simp add: nth_append)
      with ends reuse(2) L i j show ?thesis by (simp add: nth_append)
    next
      case fresh
      with step have L: "L = L0 @ [withLane e (length lanes0)]" by simp
      with i j snoc.prems(5) have "lane (L0 ! i) = length lanes0" by (simp add: nth_append)
      with bound show ?thesis by simp
    qed
  qed
qed

lemma activeAt_eventOf [simp]: "activeAt t (eventOf p) = activeAt t p"
  by (simp add: activeAt_def)

lemma overlapCount_placed:
  "overlapCount (map eventOf L) t = length (filter (activeAt t) L)"
  by (simp add: overlapCount_def filter_map comp_def)

lemma overlapCount_snoc:
  "overlapCount (xs @ [e]) t = overlapCount xs t + (if activeAt t e then 1 else 0)"
  by (simp add: overlapCount_def)

lemma overlapCount_sort [simp]: "overlapCount (sort_key f evs) t = overlapCount evs t"
  by (simp add: overlapCount_def filter_sort)

lemma overlapCount_le: "overlapCount evs t \<le> length evs"
  by (simp add: overlapCount_def)

lemma lanes_all_busy:
  assumes loop: "layoutLoop xs = (L, lanes)"
    and busy: "\<forall>k<length lanes. t < lanes ! k"
    and before: "\<forall>x\<in>set xs. start x \<le> t"
  shows "length lanes \<le> overlapCount xs t"
proof -
  let ?A = "{p \<in> set L. activeAt t p}"
  have ev: "map eventOf L = xs" using loop by (rule loop_events)
  have "{..<length lanes} \<subseteq> lane ` ?A"
  proof
    fix k assume "k \<in> {..<length lanes}"
    then have k: "k < length lanes" by simp
    from loop_lane_used [OF loop k] obtain p
      where p: "p \<in> set L" "lane p = k" "end_e p = lanes ! k" by blast
    from p(1) ev have "eventOf p \<in> set xs" by force
    with before have "start p \<le> t" by fastforce
    with p busy k have "activeAt t p" by (simp add: activeAt_def)
    with p show "k \<in> lane ` ?A" by blast
  qed
  then have "card {..<length lanes} \<le> card (lane ` ?A)"
    by (intro card_mono) auto
  also have "\<dots> \<le> card ?A" by (intro card_image_le) auto
  also have "?A = set (filter (activeAt t) L)" by auto
  also have "card (set (filter (activeAt t) L)) \<le> length (filter (activeAt t) L)"
    by (rule card_length)
  also have "\<dots> = overlapCount xs t"
    using ev overlapCount_placed [of L t] by simp
  finally show ?thesis by simp
qed

lemma loop_depth:
  "sorted (map start xs) \<Longrightarrow> \<forall>e\<in>set xs. start e < end_e e \<Longrightarrow> layoutLoop xs = (L, lanes) \<Longrightarrow>
     \<exists>t. length lanes \<le> overlapCount xs t"
proof (induction xs arbitrary: L lanes rule: rev_induct)
  case Nil
  then show ?case by simp
next
  case (snoc e xs)
  obtain L0 lanes0 where l0: "layoutLoop xs = (L0, lanes0)" by (cases "layoutLoop xs")
  from snoc.prems(1) have srt: "sorted (map start xs)" and le: "\<forall>x\<in>set xs. start x \<le> start e"
    by (auto simp: sorted_append)
  from snoc.prems(2) have valid: "\<forall>e\<in>set xs. start e < end_e e" and e: "start e < end_e e"
    by simp_all
  from snoc.IH [OF srt valid l0] obtain t0 where t0: "length lanes0 \<le> overlapCount xs t0" ..
  from snoc.prems(3) l0 have step: "placeEvent (L0, lanes0) e = (L, lanes)"
    by (simp add: layoutLoop_snoc)
  show ?case
  proof (cases rule: placeEvent_cases [of lanes0 e L0])
    case (reuse i)
    with step have "length lanes = length lanes0" by auto
    with t0 have "length lanes \<le> overlapCount (xs @ [e]) t0"
      by (simp add: overlapCount_snoc)
    then show ?thesis ..
  next
    case fresh
    with step have len: "length lanes = Suc (length lanes0)" by auto
    from l0 fresh(1) le have "length lanes0 \<le> overlapCount xs (start e)"
      by (rule lanes_all_busy)
    with len e have "length lanes \<le> overlapCount (xs @ [e]) (start e)"
      by (simp add: overlapCount_snoc activeAt_def)
    then show ?thesis ..
  qed
qed

lemma finite_overlapCount: "finite (range (overlapCount evs))"
proof (rule finite_subset)
  show "range (overlapCount evs) \<subseteq> {..length evs}"
    using overlapCount_le by auto
qed simp

lemma totalLanes_calculateLayout:
  "totalLanes (calculateLayout evs) = length (snd (layoutLoop (sort_key start evs)))"
  by (simp add: calculateLayout_def split: prod.splits)

lemma layout_calculateLayout:
  "layout (calculateLayout evs) = fst (layoutLoop (sort_key start evs))"
  by (simp add: calculateLayout_def split: prod.splits)

lemma loop_lanes_image:
  assumes "layoutLoop xs = (L, lanes)"
  shows "lane ` set L = {..<length lanes}"
proof
  show "lane ` set L \<subseteq> {..<length lanes}"
    using loop_lane_bound [OF assms] by auto
  show "{..<length lanes} \<subseteq> lane ` set L"
  proof
    fix k assume "k \<in> {..<length lanes}"
    then have "k < length lanes" by simp
    from loop_lane_used [OF assms this] show "k \<in> lane ` set L" by force
  qed
qed

lemma Max_lessThan_Suc: "Max {..<Suc n} = n"
proof (rule Max_eqI)
  show "finite {..<Suc n}" by simp
  show "\<And>y. y \<in> {..<Suc n} \<Longrightarrow> y \<le> n" by simp
  show "n \<in> {..<Suc n}" by simp
qed

lemma calculateLayoutIn_eq:
  "a < length heap \<Longrightarrow>
     calculateLayoutIn heap a =
       Some (calculateLayout (heap ! a), heap @ [sort_key start (heap ! a)])"
  by (simp add: calculateLayoutIn_def calculateLayout_def Let_def nth_append split: prod.splits)

lemma exampleEvents_valid: "\<forall>e\<in>set exampleEvents. start e < end_e e"
  by (simp add: exampleEvents_def event_at_def)

lemma exampleEvents_layout:
  "calculateLayout exampleEvents =
     \<lparr>layout = [withLane (event_at ''a'' 0 4) 0, withLane (event_at ''b'' 2 6) 1,
                withLane (event_at ''c'' 4 7) 0],
      totalLanes = 2\<rparr>"
  by (simp add: exampleEvents_def calculateLayout_def layoutLoop_def placeEvent_def
      scanLanes.simps event_at_def)

lemma overlapCount_card:
  "overlapCount evs t = card {i. i < length evs \<and> activeAt t (evs ! i)}"
  by (simp add: overlapCount_def length_filter_conv_card)

lemma activeAt_overlaps: "activeAt t a \<Longrightarrow> activeAt t b \<Longrightarrow> overlaps a b"
  by (auto simp: activeAt_def overlaps_def)

lemma lanes_needed:
  assumes g: "\<forall>i<length evs. \<forall>j<length evs. i \<noteq> j \<and> overlaps (evs ! i) (evs ! j) \<longrightarrow> g i \<noteq> g j"
  shows "overlapCount evs t \<le> card (g ` {..<length evs})"
proof -
  let ?A = "{i. i < length evs \<and> activeAt t (evs ! i)}"
  have "inj_on g ?A"
  proof (rule inj_onI)
    fix i j assume i: "i \<in> ?A" and j: "j \<in> ?A" and eq: "g i = g j"
    show "i = j"
    proof (rule ccontr)
      assume "i \<noteq> j"
      moreover from i j have "overlaps (evs ! i) (evs ! j)" by (auto intro: activeAt_overlaps)
      ultimately have "g i \<noteq> g j" using g i j by auto
      with eq show False by simp
    qed
  qed
  then have "card (g ` ?A) = card ?A" by (rule card_image)
  moreover have "card (g ` ?A) \<le> card (g ` {..<length evs})"
    by (intro card_mono) auto
  ultimately show ?thesis by (simp add: overlapCount_card)
qed

section \<open>The claims about the lane layout\<close>

text \<open>
  Claim C1. When every event has \<open>start < end\<close>, \<^verbatim>\<open>calculateLayout\<close> never puts two
  events whose ranges \<open>[start, end)\<close> overlap into the same lane: two different entries
  of the layout with the same lane are disjoint in time.
\<close>

theorem calculateLayout_no_overlap_in_lane:
  assumes valid: "\<forall>e\<in>set allEvents. start e < end_e e"
    and i: "i < length (layout (calculateLayout allEvents))"
    and j: "j < length (layout (calculateLayout allEvents))"
    and ne: "i \<noteq> j"
    and same: "lane (layout (calculateLayout allEvents) ! i) = lane (layout (calculateLayout allEvents) ! j)"
  shows "\<not> overlaps (layout (calculateLayout allEvents) ! i) (layout (calculateLayout allEvents) ! j)"
proof -
  let ?xs = "sort_key start allEvents"
  obtain L lanes where loop: "layoutLoop ?xs = (L, lanes)" by (cases "layoutLoop ?xs")
  then have L: "layout (calculateLayout allEvents) = L"
    by (simp add: layout_calculateLayout)
  from valid have v: "\<forall>e\<in>set ?xs. start e \<le> end_e e" by auto
  have ord: "\<And>a b. a < b \<Longrightarrow> b < length L \<Longrightarrow> lane (L ! a) = lane (L ! b) \<Longrightarrow>
      end_e (L ! a) \<le> start (L ! b)"
    using loop_disjoint [OF v loop] by blast
  from ne consider "i < j" | "j < i" by linarith
  then show ?thesis
  proof cases
    case 1
    with ord [of i j] j same L show ?thesis by (simp add: overlaps_def)
  next
    case 2
    with ord [of j i] i same L show ?thesis by (simp add: overlaps_def)
  qed
qed

theorem calculateLayout_no_overlap_in_lane_witness:
  "list_all (\<lambda>e. start e < end_e e) exampleEvents
   \<and> lane (layout (calculateLayout exampleEvents) ! 0) = lane (layout (calculateLayout exampleEvents) ! 2)
   \<and> \<not> overlaps (layout (calculateLayout exampleEvents) ! 0) (layout (calculateLayout exampleEvents) ! 2)"
proof -
  have same: "lane (layout (calculateLayout exampleEvents) ! 0)
      = lane (layout (calculateLayout exampleEvents) ! 2)"
    by (simp add: exampleEvents_layout)
  have "\<not> overlaps (layout (calculateLayout exampleEvents) ! 0)
      (layout (calculateLayout exampleEvents) ! 2)"
    by (rule calculateLayout_no_overlap_in_lane [OF exampleEvents_valid _ _ _ same])
      (simp_all add: exampleEvents_layout)
  with same exampleEvents_valid show ?thesis
    by (simp add: list_all_iff)
qed

text \<open>
  Claim C2. When every event has \<open>start < end\<close>, the \<^verbatim>\<open>totalLanes\<close> that
  \<^verbatim>\<open>calculateLayout\<close> returns is at most the greatest number of events whose ranges
  hold one common instant. The lemma \<open>loop_depth\<close> gives the instant: the start of the
  event for which the last lane was opened. So the count is the least possible: every
  assignment \<open>g\<close> of lanes to the positions of the input that keeps overlapping events
  apart uses at least as many lanes.
\<close>

theorem calculateLayout_lanes_minimal:
  assumes "\<forall>e\<in>set allEvents. start e < end_e e"
  shows "totalLanes (calculateLayout allEvents) \<le> Max (range (overlapCount allEvents))
    \<and> ((\<forall>i<length allEvents. \<forall>j<length allEvents.
           i \<noteq> j \<and> overlaps (allEvents ! i) (allEvents ! j) \<longrightarrow> g i \<noteq> g j) \<longrightarrow>
        totalLanes (calculateLayout allEvents) \<le> card (g ` {..<length allEvents}))"
proof -
  let ?xs = "sort_key start allEvents"
  obtain L lanes where loop: "layoutLoop ?xs = (L, lanes)" by (cases "layoutLoop ?xs")
  have "sorted (map start ?xs)" by simp
  moreover from assms have "\<forall>e\<in>set ?xs. start e < end_e e" by simp
  ultimately obtain t where "length lanes \<le> overlapCount ?xs t"
    using loop_depth [OF _ _ loop] by blast
  then have t: "totalLanes (calculateLayout allEvents) \<le> overlapCount allEvents t"
    using loop by (simp add: totalLanes_calculateLayout)
  have "overlapCount allEvents t \<le> Max (range (overlapCount allEvents))"
    by (intro Max_ge finite_overlapCount) simp
  with t have 1: "totalLanes (calculateLayout allEvents) \<le> Max (range (overlapCount allEvents))"
    by simp
  have 2: "(\<forall>i<length allEvents. \<forall>j<length allEvents.
           i \<noteq> j \<and> overlaps (allEvents ! i) (allEvents ! j) \<longrightarrow> g i \<noteq> g j) \<longrightarrow>
        totalLanes (calculateLayout allEvents) \<le> card (g ` {..<length allEvents})"
    using t lanes_needed [of allEvents g t] by auto
  from 1 2 show ?thesis ..
qed

theorem calculateLayout_lanes_minimal_witness:
  "list_all (\<lambda>e. start e < end_e e) exampleEvents
   \<and> totalLanes (calculateLayout exampleEvents) = 2
   \<and> totalLanes (calculateLayout exampleEvents) \<le> Max (range (overlapCount exampleEvents))
   \<and> totalLanes (calculateLayout exampleEvents)
       \<le> card ((\<lambda>i. if i = 0 then 1 else (0::nat)) ` {..<length exampleEvents})"
proof -
  note inst = calculateLayout_lanes_minimal [OF exampleEvents_valid,
      of "\<lambda>i. if i = 0 then 1 else (0::nat)"]
  have apart: "\<forall>i<length exampleEvents. \<forall>j<length exampleEvents.
      i \<noteq> j \<and> overlaps (exampleEvents ! i) (exampleEvents ! j) \<longrightarrow>
      (if i = 0 then 1 else (0::nat)) \<noteq> (if j = 0 then 1 else 0)"
    by (simp add: exampleEvents_def event_at_def overlaps_def less_Suc_eq numeral_3_eq_3)
  from inst have 1: "totalLanes (calculateLayout exampleEvents)
      \<le> Max (range (overlapCount exampleEvents))" ..
  from inst apart have 2: "totalLanes (calculateLayout exampleEvents)
      \<le> card ((\<lambda>i. if i = 0 then 1 else (0::nat)) ` {..<length exampleEvents})"
    by blast
  have 3: "totalLanes (calculateLayout exampleEvents) = 2"
    by (simp add: exampleEvents_layout)
  from exampleEvents_valid have 4: "list_all (\<lambda>e. start e < end_e e) exampleEvents"
    by (simp add: list_all_iff)
  from 1 2 3 4 show ?thesis by blast
qed

text \<open>
  Claim C9. For every list of events, the layout holds the input events, each once and
  with its fields as they were (it is the input sorted by \<open>start\<close>, each event with a
  lane added); the lanes in use are exactly \<open>0, \<dots>, totalLanes - 1\<close>, so \<^verbatim>\<open>totalLanes\<close> is
  the greatest lane plus one, and 0 for the empty list; and the array passed in is left
  as it was: the heap after the call is the heap before it, with new arrays behind it.
\<close>

theorem calculateLayout_assigns_lanes:
  "map eventOf (layout (calculateLayout allEvents)) = sort_key start allEvents
   \<and> mset (map eventOf (layout (calculateLayout allEvents))) = mset allEvents
   \<and> lane ` set (layout (calculateLayout allEvents)) = {..<totalLanes (calculateLayout allEvents)}
   \<and> totalLanes (calculateLayout allEvents)
       = (if allEvents = [] then 0 else Max (lane ` set (layout (calculateLayout allEvents))) + 1)
   \<and> (allEvents = heap ! a \<and> a < length heap \<longrightarrow>
        (\<exists>heap'. calculateLayoutIn heap a = Some (calculateLayout allEvents, heap')
           \<and> take (length heap) heap' = heap))"
proof -
  let ?xs = "sort_key start allEvents"
  obtain L lanes where loop: "layoutLoop ?xs = (L, lanes)" by (cases "layoutLoop ?xs")
  then have L: "layout (calculateLayout allEvents) = L"
    and n: "totalLanes (calculateLayout allEvents) = length lanes"
    by (simp_all add: layout_calculateLayout totalLanes_calculateLayout)
  have ev: "map eventOf L = ?xs" using loop by (rule loop_events)
  then have ms: "mset (map eventOf L) = mset allEvents" by simp
  have img: "lane ` set L = {..<length lanes}" using loop by (rule loop_lanes_image)
  have total: "length lanes = (if allEvents = [] then 0 else Max (lane ` set L) + 1)"
  proof (cases "allEvents = []")
    case True
    with ev have "L = []" by simp
    with img have "{..<length lanes} = {}" by simp
    then have "length lanes = 0" by (cases "length lanes") auto
    with True show ?thesis by simp
  next
    case False
    have "length L = length allEvents"
      using arg_cong [OF ev, of length] by simp
    with False have "L \<noteq> []" by auto
    with img have "length lanes \<noteq> 0" by auto
    then obtain m where "length lanes = Suc m" by (cases "length lanes") auto
    with img False show ?thesis by (simp add: Max_lessThan_Suc)
  qed
  have hp: "allEvents = heap ! a \<and> a < length heap \<longrightarrow>
        (\<exists>heap'. calculateLayoutIn heap a = Some (calculateLayout allEvents, heap')
           \<and> take (length heap) heap' = heap)"
    by (simp add: calculateLayoutIn_eq)
  from ev ms img total hp show ?thesis unfolding L n by blast
qed

theorem calculateLayout_assigns_lanes_witness:
  "map eventOf (layout (calculateLayout exampleEvents))
     = [event_at ''a'' 0 4, event_at ''b'' 2 6, event_at ''c'' 4 7]
   \<and> map lane (layout (calculateLayout exampleEvents)) = [0, 1, 0]
   \<and> totalLanes (calculateLayout exampleEvents) = 2
   \<and> calculateLayoutIn [[], exampleEvents] 1
       = Some (calculateLayout exampleEvents, [[], exampleEvents, sort_key start exampleEvents])"
proof -
  have "\<exists>heap'. calculateLayoutIn [[], exampleEvents] 1 = Some (calculateLayout exampleEvents, heap')
      \<and> take (length [[], exampleEvents]) heap' = [[], exampleEvents]"
    using calculateLayout_assigns_lanes [of exampleEvents "[[], exampleEvents]" 1] by simp
  then show ?thesis
    by (simp add: exampleEvents_layout calculateLayoutIn_eq)
qed

section \<open>The claims about dragging\<close>

lemmas drag_defs = handleMouseMove_def pointerPercent_def jsDivide_def newStartOf_def
  clampOf_def jsRound_def clampedStart_def











text \<open>
  Claim C5, as amended. Dragging the event with start 2 and end 5 on a timeline of duration
  10, with a captured offset of 0, to the pointer position of time 9 (nine tenths of the
  timeline's width) gives the start 9 before the clamp and 7 after it, the minimum of 9
  and \<open>10 - 3\<close>, and the end 10. The claim's 5 is not what the formula gives.
\<close>

theorem handleMouseMove_scenario:
  assumes "0 < rect_width rc"
    and "clientX = rect_left rc + 9 / 10 * rect_width rc"
    and "startOffset d = Finite 0"
    and "find (\<lambda>ev. id_e ev = drag_id d) events = Some cur"
    and "start cur = 2" "end_e cur = 5"
  shows "handleMouseMove (Some d) (Some rc) clientX events 10 = Update (cur\<lparr>start := 7, end_e := 10\<rparr>)
    \<and> clampedStart 9 10 (end_e cur - start cur) = min 9 (10 - (end_e cur - start cur))"
  using assms
  by (simp add: drag_defs)

theorem handleMouseMove_scenario_witness:
  "handleMouseMove (Some \<lparr>drag_id = ''a'', startOffset = Finite 0\<rparr>)
       (Some \<lparr>rect_left = 50, rect_width = 200\<rparr>) 230 [event_at ''a'' 2 5] 10
     = Update (event_at ''a'' 7 10)"
  using handleMouseMove_scenario [of "\<lparr>rect_left = 50, rect_width = 200\<rparr>" 230
      "\<lparr>drag_id = ''a'', startOffset = Finite 0\<rparr>" "[event_at ''a'' 2 5]" "event_at ''a'' 2 5"]
  by (simp add: event_at_def)

theorem handleMouseMove_scenario_start_is_not_5:
  "handleMouseMove (Some \<lparr>drag_id = ''a'', startOffset = Finite 0\<rparr>)
       (Some \<lparr>rect_left = 0, rect_width = 100\<rparr>) 90 [event_at ''a'' 2 5] 10
     = Update (event_at ''a'' 7 10)
   \<and> start (event_at ''a'' 7 10) \<noteq> 5
   \<and> clampedStart 9 10 (5 - 2) \<noteq> 5"
  by (simp add: drag_defs event_at_def)




section \<open>The claims about subjects and the parameter tree\<close>

lemma find_subjectHasId:
  "find (subjectHasId i) ss = Some s \<Longrightarrow> map_of s ''id'' = Some (JStr i)"
  by (auto simp: find_Some_iff subjectHasId_def)

lemma removeSubject_found:
  assumes "\<exists>s\<in>set (subjects st). subjectHasId i s"
  shows "removeSubject i st =
     st\<lparr>subjects := filter (\<lambda>s. \<not> subjectHasId i s) (subjects st),
        timeline := filter (\<lambda>e. subjectId e \<noteq> Some i) (timeline st)\<rparr>"
proof -
  from assms obtain s where s: "find (subjectHasId i) (subjects st) = Some s"
    by (cases "find (subjectHasId i) (subjects st)") (auto simp: find_None_iff)
  then have id: "map_of s ''id'' = Some (JStr i)" by (rule find_subjectHasId)
  have "\<And>e. (map_option JStr (subjectId e) \<noteq> Some (JStr i)) = (subjectId e \<noteq> Some i)"
    by (case_tac "subjectId e") auto
  with s id show ?thesis
    by (simp add: removeSubject_def)
qed

lemma removeSubject_absent:
  "\<not> (\<exists>s\<in>set (subjects st). subjectHasId i s) \<Longrightarrow> removeSubject i st = st"
  by (simp add: removeSubject_def find_None_iff [THEN iffD2])

text \<open>
  Claim C8. Removing a subject by its id removes the subjects with that id and every
  timeline event whose \<^verbatim>\<open>subjectId\<close> is that id; the other subjects and the other events,
  those of other subjects and those of no subject, stay as they were and in their order,
  as do the parameters and the prompt type. With no subject of that id the state is
  unchanged.
\<close>

theorem removeSubject_cascade:
  "((\<exists>s\<in>set (subjects st). subjectHasId i s) \<longrightarrow>
      (\<forall>s\<in>set (subjects (removeSubject i st)). \<not> subjectHasId i s)
      \<and> (\<forall>e\<in>set (timeline (removeSubject i st)). subjectId e \<noteq> Some i)
      \<and> subjects (removeSubject i st) = filter (\<lambda>s. \<not> subjectHasId i s) (subjects st)
      \<and> timeline (removeSubject i st) = filter (\<lambda>e. subjectId e \<noteq> Some i) (timeline st)
      \<and> (\<forall>e\<in>set (timeline st). subjectId e = None \<longrightarrow> e \<in> set (timeline (removeSubject i st)))
      \<and> params (removeSubject i st) = params st
      \<and> promptType (removeSubject i st) = promptType st)
   \<and> (\<not> (\<exists>s\<in>set (subjects st). subjectHasId i s) \<longrightarrow> removeSubject i st = st)"
proof (cases "\<exists>s\<in>set (subjects st). subjectHasId i s")
  case True
  then show ?thesis by (simp add: removeSubject_found)
next
  case False
  then show ?thesis by (simp add: removeSubject_absent)
qed

theorem removeSubject_cascade_witness:
  "subjectHasId ''subj_1'' (subjects exampleStudio ! 0)
   \<and> map (\<lambda>s. map_of s ''id'') (subjects (removeSubject ''subj_1'' exampleStudio)) = [Some (JStr ''subj_2'')]
   \<and> timeline (removeSubject ''subj_1'' exampleStudio)
       = [(event_at ''e2'' 1 4)\<lparr>subjectId := Some ''subj_2''\<rparr>, event_at ''e3'' 2 5]"
proof -
  have ex: "\<exists>s\<in>set (subjects exampleStudio). subjectHasId ''subj_1'' s"
    by (simp add: exampleStudio_def subjectHasId_def)
  from removeSubject_cascade [of exampleStudio "''subj_1''"] ex
  have "subjects (removeSubject ''subj_1'' exampleStudio)
          = filter (\<lambda>s. \<not> subjectHasId ''subj_1'' s) (subjects exampleStudio)"
    and "timeline (removeSubject ''subj_1'' exampleStudio)
          = filter (\<lambda>e. subjectId e \<noteq> Some ''subj_1'') (timeline exampleStudio)"
    by blast+
  then show ?thesis
    by (simp add: exampleStudio_def subjectHasId_def event_at_def)
qed

lemma setIn_deletes_leaf:
  "isEmptyValue v \<Longrightarrow> setIn k ks v cur = Inr cur' \<Longrightarrow> lookupPath (k # ks) (JObj cur') = None"
proof (induction ks arbitrary: k cur cur')
  case Nil
  then show ?case by (auto simp: delete_conv')
next
  case (Cons k' ks)
  from Cons.prems(2) obtain child c' where
    "setIn k' ks v child = Inr c'" and "cur' = AList.update k (JObj c') cur"
    by (auto split: option.splits jv.splits if_splits sum.splits simp: map_sum_def)
  with Cons.IH [OF Cons.prems(1), of k' child c'] show ?case
    by (simp add: update_conv')
qed

lemma setIn_writes_leaf:
  "\<not> isEmptyValue v \<Longrightarrow> setIn k ks v cur = Inr cur' \<Longrightarrow> lookupPath (k # ks) (JObj cur') = Some v"
proof (induction ks arbitrary: k cur cur')
  case Nil
  then show ?case by (auto simp: update_conv')
next
  case (Cons k' ks)
  from Cons.prems(2) obtain child c' where
    "setIn k' ks v child = Inr c'" and "cur' = AList.update k (JObj c') cur"
    by (auto split: option.splits jv.splits if_splits sum.splits simp: map_sum_def)
  with Cons.IH [OF Cons.prems(1), of k' child c'] show ?case
    by (simp add: update_conv')
qed

lemma splitDot_not_Nil: "splitDot path \<noteq> []"
  by (induction path) (auto split: list.splits)

lemma update_absent: "map_of al k = None \<Longrightarrow> AList.update k v al = al @ [(k, v)]"
  by (induction al) (auto split: if_splits)

lemma camera_angle: "splitDot ''camera.angle'' = [''camera'', ''angle'']"
  by simp

lemma handleParamChange_two_keys:
  assumes "splitDot path = [category, sub]"
    and "\<forall>v\<in>ran (map_of p). \<exists>c. v = JObj c"
  shows "\<exists>p'. handleParamChange path v p = Inr p'"
proof (cases "map_of p category")
  case None
  with assms(1) show ?thesis by (simp add: handleParamChange_def)
next
  case (Some x)
  with assms(2) obtain c where "x = JObj c" by (auto simp: ran_def)
  with Some assms(1) show ?thesis by (simp add: handleParamChange_def)
qed

text \<open>
  Claim C7. Setting a path to the empty string or the empty list deletes the path's leaf:
  in the tree that \<^verbatim>\<open>handleParamChange\<close> returns, reading the path gives nothing. For
  \<^verbatim>\<open>camera.angle\<close> set to \<^verbatim>\<open>[]\<close>: the object under \<^verbatim>\<open>camera\<close> loses the key \<^verbatim>\<open>angle\<close> and
  stays in the tree, as the empty object when \<^verbatim>\<open>angle\<close> was its only key; a tree without
  \<^verbatim>\<open>camera\<close> gets \<^verbatim>\<open>camera\<close> as an empty object. On a tree whose categories are objects
  a path of two keys always succeeds.
\<close>

theorem handleParamChange_empty_deletes:
  "(isEmptyValue v \<and> handleParamChange path v p = Inr p' \<longrightarrow>
      lookupPath (splitDot path) (JObj p') = None)
   \<and> (map_of p ''camera'' = Some (JObj camera) \<longrightarrow>
        handleParamChange ''camera.angle'' (JArr []) p
          = Inr (AList.update ''camera'' (JObj (AList.delete ''angle'' camera)) p)
        \<and> map_of (AList.delete ''angle'' camera) ''angle'' = None
        \<and> (fst ` set camera \<subseteq> {''angle''} \<longrightarrow> AList.delete ''angle'' camera = []))
   \<and> (map_of p ''camera'' = None \<longrightarrow>
        handleParamChange ''camera.angle'' (JArr []) p = Inr (p @ [(''camera'', JObj [])]))
   \<and> (splitDot path = [category, sub] \<and> (\<forall>x\<in>ran (map_of p). \<exists>c. x = JObj c) \<longrightarrow>
        (\<exists>q. handleParamChange path v p = Inr q))"
proof -
  have a: "isEmptyValue v \<and> handleParamChange path v p = Inr p' \<longrightarrow>
      lookupPath (splitDot path) (JObj p') = None"
    by (cases "splitDot path") (auto simp: handleParamChange_def splitDot_not_Nil dest: setIn_deletes_leaf)
  have e: "isEmptyValue (JArr [])" by (simp add: isEmptyValue_def)
  have b: "map_of p ''camera'' = Some (JObj camera) \<longrightarrow>
        handleParamChange ''camera.angle'' (JArr []) p
          = Inr (AList.update ''camera'' (JObj (AList.delete ''angle'' camera)) p)"
    by (simp add: handleParamChange_def e)
  have c: "map_of (AList.delete ''angle'' camera) ''angle'' = None"
    by (simp add: delete_conv')
  have d: "fst ` set camera \<subseteq> {''angle''} \<longrightarrow> AList.delete ''angle'' camera = []"
    by (induction camera) auto
  have f: "map_of p ''camera'' = None \<longrightarrow>
        handleParamChange ''camera.angle'' (JArr []) p = Inr (p @ [(''camera'', JObj [])])"
    by (simp add: handleParamChange_def e update_absent)
  have g: "splitDot path = [category, sub] \<and> (\<forall>x\<in>ran (map_of p). \<exists>c. x = JObj c) \<longrightarrow>
        (\<exists>q. handleParamChange path v p = Inr q)"
    using handleParamChange_two_keys [of path category sub p v] by blast
  from a b c d f g show ?thesis by blast
qed

theorem handleParamChange_empty_deletes_witness:
  "handleParamChange ''camera.angle'' (JArr []) (params exampleStudio) = Inr [(''camera'', JObj [])]
   \<and> lookupPath (splitDot ''camera.angle'') (JObj [(''camera'', JObj [])]) = None
   \<and> handleParamChange ''camera.angle'' (JArr []) [] = Inr [(''camera'', JObj [])]
   \<and> handleParamChange ''style.mood'' (JStr '''')
        [(''style'', JObj [(''mood'', JArr [''dark'']), (''era'', JArr [''noir''])])]
      = Inr [(''style'', JObj [(''era'', JArr [''noir''])])]"
proof -
  have e: "isEmptyValue (JArr [])" by (simp add: isEmptyValue_def)
  have cam: "map_of (params exampleStudio) ''camera'' = Some (JObj [(''angle'', JArr [''low''])])"
    by (simp add: exampleStudio_def)
  note inst = handleParamChange_empty_deletes [of "JArr []" "''camera.angle''" "params exampleStudio"
      "[(''camera'', JObj [])]" "[(''angle'', JArr [''low''])]"]
  from inst cam have 1: "handleParamChange ''camera.angle'' (JArr []) (params exampleStudio)
      = Inr [(''camera'', JObj [])]"
    by (simp add: exampleStudio_def)
  with inst e have 2: "lookupPath (splitDot ''camera.angle'') (JObj [(''camera'', JObj [])]) = None"
    by blast
  have 3: "handleParamChange ''camera.angle'' (JArr []) [] = Inr [(''camera'', JObj [])]"
    by (simp add: handleParamChange_def e)
  have 4: "handleParamChange ''style.mood'' (JStr '''')
        [(''style'', JObj [(''mood'', JArr [''dark'']), (''era'', JArr [''noir''])])]
      = Inr [(''style'', JObj [(''era'', JArr [''noir''])])]"
    by (simp add: handleParamChange_def isEmptyValue_def)
  from 1 2 3 4 show ?thesis by blast
qed

section \<open>The claim about the prompt type and the timeline\<close>

lemma perform_keeps_invariant:
  assumes "perform a st = Some st'" and "promptType st = Image \<longrightarrow> timeline st = []"
  shows "promptType st' = Image \<longrightarrow> timeline st' = []"
  using assms
  by (cases a)
    (auto simp: setPromptType_def promptTypeEffect_def resetState_def updateSubject_def
      addSubject_def removeSubject_def toggleAnimated_def addTimelineEvent_def
      updateTimelineEvent_def removeTimelineEvent_def isAnimatable_def
      split: if_splits option.splits sum.splits prod.splits)

lemma reachable_invariant:
  "reachable st \<Longrightarrow> promptType st = Image \<longrightarrow> timeline st = []"
proof (induction rule: reachable.induct)
  case (mounted now)
  show ?case by (simp add: initialStudio_def resetState_def)
next
  case (action st a st')
  then show ?case using perform_keeps_invariant by blast
qed

lemma perform_in_Image:
  assumes "perform a st = Some st'" and "promptType st = Image" and "timeline st = []"
  shows "timeline st' = []"
  using assms
  by (cases a)
    (auto simp: setPromptType_def promptTypeEffect_def resetState_def updateSubject_def
      addSubject_def removeSubject_def toggleAnimated_def isAnimatable_def
      split: if_splits option.splits sum.splits)

lemma reachable_performAll:
  "reachable st \<Longrightarrow> performAll as st = Some st' \<Longrightarrow> reachable st'"
proof (induction as arbitrary: st)
  case Nil
  then show ?case by simp
next
  case (Cons a as)
  from Cons.prems(2) obtain st1 where a: "perform a st = Some st1" and as: "performAll as st1 = Some st'"
    by (auto split: option.splits)
  from Cons.prems(1) a have "reachable st1" by (rule reachable.action)
  from Cons.IH [OF this as] show ?case .
qed

lemma performAll_append:
  "performAll (as @ bs) st = (case performAll as st of None \<Rightarrow> None | Some st' \<Rightarrow> performAll bs st')"
  by (induction as arbitrary: st) (auto split: option.splits)

lemma showNat_0: "showNat 0 = ''0''" by (simp add: showNat.simps digitChar_def)

lemma exampleActions_run:
  "performAll exampleActions (initialStudio 0) =
     Some \<lparr>promptType = Video, subjects = [newSubject 0 ''subject_1''], params = [],
            timeline = [\<lparr>id_e = ''evt_1'', paramName = ''action'', paramPath = ''scene.action'',
               paramLabel = ''action'', subjectId = None, start = 1, end_e = 4, value_e = ''run''\<rparr>],
            activeTab = ''Director'', animatedParams = [(''scene.action'', True)]\<rparr>"
  by (simp add: exampleActions_def initialStudio_def resetState_def setPromptType_def
      promptTypeEffect_def isAnimatable_def toggleAnimated_def addTimelineEvent_def scrubberRange_def)

text \<open>
  Claim C10. In every state the studio can reach, a prompt type of \<^verbatim>\<open>Image\<close> comes with an
  empty timeline: switching the prompt type to \<^verbatim>\<open>Image\<close> empties the timeline, and no
  action offered while the prompt type is \<^verbatim>\<open>Image\<close> leaves an event in it.
\<close>

theorem reachable_Image_has_no_timeline:
  assumes "reachable st"
  shows "(promptType st = Image \<longrightarrow> timeline st = [])
    \<and> timeline (setPromptType Image st) = []
    \<and> promptType (setPromptType Image st) = Image
    \<and> (promptType st = Image \<and> perform a st = Some st' \<longrightarrow> timeline st' = [])"
proof -
  have inv: "promptType st = Image \<longrightarrow> timeline st = []"
    using assms by (rule reachable_invariant)
  then have "timeline (setPromptType Image st) = []"
    by (simp add: setPromptType_def promptTypeEffect_def)
  moreover have "promptType (setPromptType Image st) = Image"
    by (simp add: setPromptType_def promptTypeEffect_def)
  moreover have "promptType st = Image \<and> perform a st = Some st' \<longrightarrow> timeline st' = []"
    using inv perform_in_Image by blast
  ultimately show ?thesis using inv by blast
qed

theorem reachable_Image_has_no_timeline_witness:
  "map_option (\<lambda>st. (promptType st, length (timeline st))) (performAll exampleActions (initialStudio 0))
     = Some (Video, 1)
   \<and> map_option (\<lambda>st. (promptType st, timeline st))
        (performAll (exampleActions @ [SetPromptType Image]) (initialStudio 0))
     = Some (Image, [])"
proof -
  obtain st where st: "performAll exampleActions (initialStudio 0) = Some st"
    by (simp add: exampleActions_run)
  have "reachable (initialStudio 0)" by (rule reachable.mounted)
  then have "reachable st" using st by (rule reachable_performAll)
  from reachable_Image_has_no_timeline [OF this]
  have "timeline (setPromptType Image st) = []" "promptType (setPromptType Image st) = Image"
    by blast+
  moreover have "performAll (exampleActions @ [SetPromptType Image]) (initialStudio 0)
      = Some (setPromptType Image st)"
    using st by (simp add: performAll_append)
  moreover have "promptType st = Video" "length (timeline st) = 1"
    using st by (auto simp: exampleActions_run)
  ultimately show ?thesis
    using st by simp
qed

section \<open>The claim about the text prompt\<close>









end
